theory Spec2Isabelle
  imports Main "HOL-Library.Stream"
begin

section \<open>Strings and arrays of the host language\<close>

text \<open>
  A string is a list of bytes. \<open>split_js c s\<close> is \<^verbatim>\<open>s.split(c)\<close> for a separator of one
  character: the empty string splits into one empty field, and a trailing separator leaves a
  trailing empty field. A character that is not the separator extends the first field of the
  rest (the split of the rest is never empty).
\<close>

fun split_js :: "char \<Rightarrow> string \<Rightarrow> string list" where
  "split_js c [] = [[]]"
| "split_js c (x # xs) =
     (if x = c then [] # split_js c xs
      else case split_js c xs of
             [] \<Rightarrow> [[x]]
           | field # fields \<Rightarrow> (x # field) # fields)"

text \<open>\<open>join_js sep xs\<close> is \<^verbatim>\<open>xs.join(sep)\<close> on an array of strings.\<close>

fun join_js :: "string \<Rightarrow> string list \<Rightarrow> string" where
  "join_js sep [] = []"
| "join_js sep [x] = x"
| "join_js sep (x # y # ys) = x @ sep @ join_js sep (y # ys)"

text \<open>
  Reading an array at an index, and the destructuring of an array into variables: a position
  past the end reads \<^verbatim>\<open>undefined\<close>, here \<open>None\<close>.
\<close>

definition nth_opt :: "'a list \<Rightarrow> nat \<Rightarrow> 'a option" where
  "nth_opt xs i = (if i < length xs then Some (xs ! i) else None)"

text \<open>\<^verbatim>\<open>s.startsWith(p)\<close> and \<^verbatim>\<open>s.substring(k)\<close>.\<close>

definition startsWith :: "string \<Rightarrow> string \<Rightarrow> bool" where
  "startsWith s p = (take (length p) s = p)"

definition substring :: "string \<Rightarrow> nat \<Rightarrow> string" where
  "substring s k = drop k s"

section \<open>Errors, console lines and the program state\<close>

text \<open>
  Every \<^verbatim>\<open>throw new Error(...)\<close> of the driver is one constructor, carrying the values its
  message interpolates, in the order of the message:
  \<^item> \<open>InvalidCoinSignature\<close>: \<^verbatim>\<open>Invalid coin signature\<close>;
  \<^item> \<open>InvalidIdentityString cnst\<close>: \<^verbatim>\<open>Invalid identity string: ${cnst} received, but ${BANK_STR} expected\<close>;
  \<^item> \<open>InvalidHashCount n l r\<close>: \<^verbatim>\<open>Invalid number of identity string hashes: expected ${n}, got left=${l}, right=${r}\<close>;
  \<^item> \<open>MissingIdent l r\<close>: \<^verbatim>\<open>Coin object missing leftIdent or rightIdent properties: ...\<close>;
  \<^item> \<open>MissingPreimage i left\<close>: \<^verbatim>\<open>Missing preimage for index ${i} in ${selectLeft ? 'leftIdent' : 'rightIdent'}\<close>;
  \<^item> \<open>InvalidRisHash i expected got\<close>: \<^verbatim>\<open>Invalid RIS hash at index ${i}: expected ${selectedHash}, got ${utils.hash(preimage)}\<close>.

  \<open>TypeError\<close> is what \<^verbatim>\<open>Buffer.from(undefined)\<close> throws, \<open>LengthMismatch\<close> the error of the
  one-time-pad primitive on operands of different lengths, \<open>InvalidAmount\<close> the refusal of a
  coin of no positive value.
\<close>

datatype error =
    InvalidCoinSignature
  | InvalidIdentityString "string option"
  | InvalidHashCount nat nat nat
  | MissingIdent "string list option" "string list option"
  | MissingPreimage nat bool
  | InvalidRisHash nat "string option" string
  | TypeError
  | LengthMismatch
  | InvalidAmount

text \<open>
  The lines the driver writes with \<^verbatim>\<open>console.log\<close>:
  \<^item> \<open>CoinAccepted guid amount left n\<close>: \<^verbatim>\<open>Coin accepted: GUID=..., Amount=..., Selected=..., RIS length=...\<close>;
  \<^item> \<open>MerchantCheating guid\<close>: \<^verbatim>\<open>Merchant is cheating with coin ${guid}\<close>;
  \<^item> \<open>SpenderCheating guid id\<close>: \<^verbatim>\<open>Double spending detected for coin ${guid}! Cheater is ${cheaterId}\<close>;
  \<^item> \<open>Inconclusive guid\<close>: \<^verbatim>\<open>No clear cheater identified for coin ${guid}\<close>.
\<close>

datatype log_line =
    CoinAccepted string int bool nat
  | MerchantCheating string
  | SpenderCheating string string
  | Inconclusive string

text \<open>
  The state the driver's functions can touch: the random source (the outcomes of the coming
  tests \<^verbatim>\<open>Math.random() < 0.5\<close>, in order) and the console.
\<close>

record world =
  draws :: "bool stream"
  console :: "log_line list"

definition console_log :: "log_line \<Rightarrow> world \<Rightarrow> world" where
  "console_log l w = w\<lparr>console := console w @ [l]\<rparr>"

section \<open>The coin\<close>

text \<open>
  The fields of a \<^verbatim>\<open>Coin\<close> object that the driver reads. \<open>leftIdent\<close> and \<open>rightIdent\<close> may be
  \<^verbatim>\<open>undefined\<close> (the driver tests for it); \<open>coinString\<close> is the canonical string.
\<close>

record coin =
  guid :: string
  amount :: int
  leftIdent :: "string list option"
  rightIdent :: "string list option"
  coinString :: string
  signature :: nat

text \<open>
  Modelled from the spec: the methods \<^verbatim>\<open>Coin.toString\<close> and \<^verbatim>\<open>Coin.getRis\<close> (the file
  \<^verbatim>\<open>coin.js\<close> is not among the sources). \<open>toString\<close> returns the canonical string form;
  \<open>getRis\<close> returns \<open>leftIdent[index]\<close> or \<open>rightIdent[index]\<close>, and a share that is absent is
  \<open>None\<close>.
\<close>

definition toString :: "coin \<Rightarrow> string" where
  "toString c = coinString c"

definition getRis :: "coin \<Rightarrow> bool \<Rightarrow> nat \<Rightarrow> string option" where
  "getRis c isLeft i =
     (case (if isLeft then leftIdent c else rightIdent c) of
        None \<Rightarrow> None
      | Some ident \<Rightarrow> nth_opt ident i)"

section \<open>parseCoin\<close>

text \<open>
  \<^verbatim>\<open>h ? h.split(',') : []\<close>: a segment that is \<^verbatim>\<open>undefined\<close> or empty gives the empty array.
\<close>

definition splitHashes :: "string option \<Rightarrow> string list" where
  "splitHashes h =
     (case h of None \<Rightarrow> [] | Some t \<Rightarrow> if t = [] then [] else split_js (CHR '','') t)"

text \<open>
  \<open>BANK_STR\<close> is a constant of \<^verbatim>\<open>coin.js\<close> and a parameter here. The five variables of the
  destructuring are the first five fields of the split; \<open>amt\<close> and \<open>guid\<close> are not used.
\<close>

definition parseCoin :: "string \<Rightarrow> string \<Rightarrow> error + (string list \<times> string list)" where
  "parseCoin BANK_STR s =
     (let fields = split_js (CHR ''-'') s;
          cnst = nth_opt fields 0;
          leftHashes = nth_opt fields 3;
          rightHashes = nth_opt fields 4
      in if cnst \<noteq> Some BANK_STR then Inl (InvalidIdentityString cnst)
         else
           let lh = splitHashes leftHashes;
               rh = splitHashes rightHashes
           in Inr (lh, rh))"

section \<open>acceptCoin\<close>

text \<open>
  The loop that gathers the revealed identity strings, over the indices
  \<open>0, ..., COIN_RIS_LENGTH - 1\<close> in order. \<open>hash\<close> is \<^verbatim>\<open>utils.hash\<close>, a parameter. A preimage
  that is \<^verbatim>\<open>undefined\<close> or the empty string is falsy and counts as missing.
\<close>

fun gatherRis ::
  "(string \<Rightarrow> string) \<Rightarrow> coin \<Rightarrow> bool \<Rightarrow> string list \<Rightarrow> string list \<Rightarrow>
   nat list \<Rightarrow> string list \<Rightarrow> error + string list" where
  "gatherRis hash c selectLeft leftHashes rightHashes [] ris = Inr ris"
| "gatherRis hash c selectLeft leftHashes rightHashes (i # rest) ris =
     (let selectedHash = (if selectLeft then nth_opt leftHashes i else nth_opt rightHashes i);
          preimage = getRis c selectLeft i
      in case preimage of
           None \<Rightarrow> Inl (MissingPreimage i selectLeft)
         | Some p \<Rightarrow>
             if p = [] then Inl (MissingPreimage i selectLeft)
             else if Some (hash p) \<noteq> selectedHash
               then Inl (InvalidRisHash i selectedHash (hash p))
             else gatherRis hash c selectLeft leftHashes rightHashes rest (ris @ [p]))"

text \<open>
  \<open>verify sig msg\<close> is \<^verbatim>\<open>blindSignatures.verify\<close> with the bank's public \<open>N\<close> and \<open>E\<close>, a
  parameter, as are the constants \<open>BANK_STR\<close> and \<open>COIN_RIS_LENGTH\<close> of \<^verbatim>\<open>coin.js\<close>. The side is
  drawn once, after the checks of the coin and before the loop; the line on the console is
  written only when every share has passed.
\<close>

definition acceptCoin ::
  "(nat \<Rightarrow> string \<Rightarrow> bool) \<Rightarrow> (string \<Rightarrow> string) \<Rightarrow> string \<Rightarrow> nat \<Rightarrow>
   coin \<Rightarrow> world \<Rightarrow> (error + string list) \<times> world" where
  "acceptCoin verify hash BANK_STR COIN_RIS_LENGTH c w =
     (if \<not> verify (signature c) (toString c) then (Inl InvalidCoinSignature, w)
      else case parseCoin BANK_STR (toString c) of
        Inl e \<Rightarrow> (Inl e, w)
      | Inr (leftHashes, rightHashes) \<Rightarrow>
          if length leftHashes \<noteq> COIN_RIS_LENGTH \<or> length rightHashes \<noteq> COIN_RIS_LENGTH
          then (Inl (InvalidHashCount COIN_RIS_LENGTH (length leftHashes) (length rightHashes)), w)
          else if leftIdent c = None \<or> rightIdent c = None
          then (Inl (MissingIdent (leftIdent c) (rightIdent c)), w)
          else
            let selectLeft = shd (draws w);
                w1 = w\<lparr>draws := stl (draws w)\<rparr>
            in case gatherRis hash c selectLeft leftHashes rightHashes [0..<COIN_RIS_LENGTH] [] of
                 Inl e \<Rightarrow> (Inl e, w1)
               | Inr ris \<Rightarrow>
                   (Inr ris,
                    console_log (CoinAccepted (guid c) (amount c) selectLeft (length ris)) w1))"

section \<open>determineCheater\<close>

text \<open>
  The elements of a revealed identity string are of a type \<open>'share\<close>: strings, as the driver
  documents them, or buffers. The conversions that the runtime applies to them are parameters:
  \<^item> \<open>toStr x\<close> is the string that \<^verbatim>\<open>join\<close> makes of the element \<open>x\<close> (the element itself for a
    string, its decoding for a buffer);
  \<^item> \<open>bufferFrom x\<close> is the bytes of \<^verbatim>\<open>Buffer.from(x)\<close> (the encoding of a string, the bytes of a
    buffer).
\<close>

type_synonym bytes = string

text \<open>
  The loop over the pairs of revealed strings. \<open>decryptOTP key ciphertext\<close> is
  \<^verbatim>\<open>utils.decryptOTP\<close> with \<^verbatim>\<open>returnType: 'string'\<close>, a parameter, as is the constant \<open>IDENT_STR\<close>
  of \<^verbatim>\<open>coin.js\<close>. \<^verbatim>\<open>Buffer.from\<close> of an array position past the end throws. The loop ends
  with \<open>Some cheaterId\<close> at the first index whose result starts with \<open>IDENT_STR\<close>, and with
  \<open>None\<close> when no index does.
\<close>

fun cheaterLoop ::
  "string \<Rightarrow> ('share \<Rightarrow> bytes) \<Rightarrow> (bytes \<Rightarrow> bytes \<Rightarrow> error + string) \<Rightarrow>
   'share list \<Rightarrow> 'share list \<Rightarrow> nat list \<Rightarrow> error + string option" where
  "cheaterLoop IDENT_STR bufferFrom decryptOTP ris1 ris2 [] = Inr None"
| "cheaterLoop IDENT_STR bufferFrom decryptOTP ris1 ris2 (i # rest) =
     (case nth_opt ris1 i of
        None \<Rightarrow> Inl TypeError
      | Some key \<Rightarrow>
          (case nth_opt ris2 i of
             None \<Rightarrow> Inl TypeError
           | Some ciphertext \<Rightarrow>
               (case decryptOTP (bufferFrom key) (bufferFrom ciphertext) of
                  Inl e \<Rightarrow> Inl e
                | Inr xorResult \<Rightarrow>
                    if startsWith xorResult IDENT_STR
                    then Inr (Some (substring xorResult (length IDENT_STR + 1)))
                    else cheaterLoop IDENT_STR bufferFrom decryptOTP ris1 ris2 rest)))"

text \<open>
  The function returns nothing: its result is the line it writes on the console. The first
  component is the error thrown, if any. The first test compares the joins of the two
  arrays, that is, of the strings that \<^verbatim>\<open>join\<close> makes of their elements.
\<close>

definition determineCheater ::
  "nat \<Rightarrow> string \<Rightarrow> ('share \<Rightarrow> string) \<Rightarrow> ('share \<Rightarrow> bytes) \<Rightarrow>
   (bytes \<Rightarrow> bytes \<Rightarrow> error + string) \<Rightarrow>
   string \<Rightarrow> 'share list \<Rightarrow> 'share list \<Rightarrow> world \<Rightarrow> error option \<times> world" where
  "determineCheater COIN_RIS_LENGTH IDENT_STR toStr bufferFrom decryptOTP g ris1 ris2 w =
     (if join_js '','' (map toStr ris1) = join_js '','' (map toStr ris2)
      then (None, console_log (MerchantCheating g) w)
      else case cheaterLoop IDENT_STR bufferFrom decryptOTP ris1 ris2 [0..<COIN_RIS_LENGTH] of
             Inl e \<Rightarrow> (Some e, w)
           | Inr (Some cheaterId) \<Rightarrow> (None, console_log (SpenderCheating g cheaterId) w)
           | Inr None \<Rightarrow> (None, console_log (Inconclusive g) w))"

section \<open>The primitives and the coin constructor, from the spec\<close>

text \<open>
  Modelled from the spec: the one-time-pad primitive \<^verbatim>\<open>utils.decryptOTP\<close> (the file
  \<^verbatim>\<open>utils.js\<close> is not among the sources). The spec gives \<open>xor(a, b)\<close> as the bytewise
  exclusive or and recommends the policy that requires equal lengths and fails otherwise. The
  driver asks for the result as a string: \<open>bufToString\<close>, the decoding of bytes into a string
  by the runtime, is a parameter.
\<close>

fun xor_char :: "char \<Rightarrow> char \<Rightarrow> char" where
  "xor_char (Char a0 a1 a2 a3 a4 a5 a6 a7) (Char b0 b1 b2 b3 b4 b5 b6 b7) =
     Char (a0 \<noteq> b0) (a1 \<noteq> b1) (a2 \<noteq> b2) (a3 \<noteq> b3)
          (a4 \<noteq> b4) (a5 \<noteq> b5) (a6 \<noteq> b6) (a7 \<noteq> b7)"

definition xor_bytes :: "bytes \<Rightarrow> bytes \<Rightarrow> bytes" where
  "xor_bytes a b = map2 xor_char a b"

definition decryptOTP :: "(bytes \<Rightarrow> string) \<Rightarrow> bytes \<Rightarrow> bytes \<Rightarrow> error + string" where
  "decryptOTP bufToString key ciphertext =
     (if length key \<noteq> length ciphertext then Inl LengthMismatch
      else Inr (bufToString (xor_bytes key ciphertext)))"

text \<open>
  The decimal form of a natural number, as the template of the canonical string writes the
  amount. Amounts are whole numbers here.
\<close>

fun show_nat :: "nat \<Rightarrow> string" where
  "show_nat n =
     (if n < 10 then [''0123456789'' ! n]
      else show_nat (n div 10) @ [''0123456789'' ! (n mod 10)])"

declare show_nat.simps [simp del]

text \<open>
  Modelled from the spec: the identity tag and the \<^verbatim>\<open>Coin\<close> constructor (\<^verbatim>\<open>coin.js\<close> is not
  among the sources). The identity tag is the fixed marker, a delimiter and the spender
  identity. For each split index a fresh random key is drawn (here the list \<open>keys\<close>, one key
  per index); \<open>leftIdent[i]\<close> is the tag encrypted under the key, \<open>rightIdent[i]\<close> is
  \<open>leftIdent[i] XOR identityTag\<close>, and the commitments are the hashes of the shares. The
  canonical string is \<open>BANK_STR - amount - guid - leftHashes(joined) - rightHashes(joined)\<close>.
  Construction fails if \<open>amount \<le> 0\<close>. The signature is set afterwards, by the bank.
\<close>

definition identityTag :: "string \<Rightarrow> string \<Rightarrow> string" where
  "identityTag IDENT_STR ownerIdentity = IDENT_STR @ '':'' @ ownerIdentity"

definition construct ::
  "(string \<Rightarrow> string) \<Rightarrow> string \<Rightarrow> string \<Rightarrow> string \<Rightarrow> int \<Rightarrow> string \<Rightarrow>
   string list \<Rightarrow> error + coin" where
  "construct hash BANK_STR IDENT_STR ownerIdentity amt g keys =
     (if amt \<le> 0 then Inl InvalidAmount
      else
        let tag = identityTag IDENT_STR ownerIdentity;
            left = map (\<lambda>key. xor_bytes tag key) keys;
            right = map (\<lambda>share. xor_bytes share tag) left;
            leftHashes = map hash left;
            rightHashes = map hash right
        in Inr \<lparr>guid = g, amount = amt, leftIdent = Some left, rightIdent = Some right,
                 coinString = BANK_STR @ ''-'' @ show_nat (nat amt) @ ''-'' @ g @ ''-'' @
                   join_js '','' leftHashes @ ''-'' @ join_js '','' rightHashes,
                 signature = 0\<rparr>)"

section \<open>Predicates of the statements\<close>

text \<open>
  The share of index \<open>i\<close> on the chosen side passes the two checks of the loop: it is present
  and not empty, and its hash is the commitment of that index on that side.
\<close>

definition sharePasses ::
  "(string \<Rightarrow> string) \<Rightarrow> coin \<Rightarrow> bool \<Rightarrow> string list \<Rightarrow> string list \<Rightarrow> nat \<Rightarrow> bool" where
  "sharePasses hash c selectLeft leftHashes rightHashes i =
     (case getRis c selectLeft i of
        None \<Rightarrow> False
      | Some p \<Rightarrow>
          p \<noteq> [] \<and> Some (hash p) = (if selectLeft then nth_opt leftHashes i else nth_opt rightHashes i))"

text \<open>
  A string of ASCII characters: no byte has its top bit set. On such strings the encoding and
  the decoding of the runtime change nothing, and an ASCII string and the buffer of its bytes
  stand for each other.
\<close>

definition ascii :: "string \<Rightarrow> bool" where
  "ascii s = list_all (\<lambda>c. \<not> digit7 c) s"

text \<open>The field of position \<open>k\<close> of a coin string is absent or empty.\<close>

definition segmentMissing :: "string \<Rightarrow> nat \<Rightarrow> bool" where
  "segmentMissing s k =
     (nth_opt (split_js (CHR ''-'') s) k = None \<or> nth_opt (split_js (CHR ''-'') s) k = Some [])"

section \<open>Example data\<close>

text \<open>
  Stand-ins for the external primitives on concrete inputs: a signature that is valid when
  it is the length of the message, and a digest that is the decimal sum of the bytes.
\<close>

definition ex_verify :: "nat \<Rightarrow> string \<Rightarrow> bool" where
  "ex_verify sg msg = (sg = length msg)"

definition ex_hash :: "string \<Rightarrow> string" where
  "ex_hash s = show_nat (sum_list (map of_char s))"

text \<open>A world whose first draw selects the left side and whose second selects the right.\<close>

definition ex_world :: world where
  "ex_world = \<lparr>draws = True ## False ## sconst True, console = []\<rparr>"

text \<open>A coin of two split indices whose commitments are the digests of its shares.\<close>

definition ex_coin :: coin where
  "ex_coin = \<lparr>guid = ''g1'', amount = 20, leftIdent = Some [''ab'', ''cd''],
     rightIdent = Some [''ef'', ''gh''], coinString = ''BANK-20-g1-195,199-203,207'',
     signature = 26\<rparr>"

text \<open>
  A coin whose second share is the same wrong string on both sides, under the same commitment.
\<close>

definition ex_coin_bad :: coin where
  "ex_coin_bad = \<lparr>guid = ''g1'', amount = 20, leftIdent = Some [''ab'', ''zz''],
     rightIdent = Some [''ef'', ''zz''], coinString = ''BANK-20-g1-195,1-203,1'',
     signature = 22\<rparr>"

text \<open>
  The coin that the constructor builds for the owner \<open>alice\<close>, the amount 20, the identifier
  \<open>g1\<close> and the keys \<open>9038aOWTXS3\<close> and \<open>3w48dVWTY40\<close>, before the bank signs it.
\<close>

definition ex_alice :: coin where
  "ex_alice = \<lparr>guid = ''g1'', amount = 20,
     leftIdent = Some [''ptvv5u6810V'', ''z3qv0l680WU''],
     rightIdent = Some [''9038aOWTXS3'', ''3w48dVWTY40''],
     coinString = ''BANK-20-g1-927,890-781,824'', signature = 0\<rparr>"

text \<open>
  A coin of two split indices whose shares contain commas: the left shares are \<open>a,b\<close> and
  \<open>c\<close>, the right shares \<open>a\<close> and \<open>b,c\<close>, and the commitments are their digests.
\<close>

definition ex_coin_comma :: coin where
  "ex_coin_comma = \<lparr>guid = ''g1'', amount = 20, leftIdent = Some [''a,b'', ''c''],
     rightIdent = Some [''a'', ''b,c''], coinString = ''BANK-20-g1-239,99-97,241'',
     signature = 24\<rparr>"

section \<open>Lemmas on splitting and parsing\<close>

lemma split_js_not_Nil: "split_js c s \<noteq> []"
  by (induction s) (auto split: list.splits)

lemma hd_split_js: "hd (split_js c s) = takeWhile (\<lambda>x. x \<noteq> c) s"
  using split_js_not_Nil [of c] by (induction s) (auto split: list.splits)

lemma nth_opt_split_js_0: "nth_opt (split_js c s) 0 = Some (takeWhile (\<lambda>x. x \<noteq> c) s)"
proof -
  obtain f fs where "split_js c s = f # fs"
    using split_js_not_Nil [of c s] by (cases "split_js c s") auto
  then show ?thesis
    using hd_split_js [of c s] by (simp add: nth_opt_def)
qed

lemma split_js_no_sep: "c \<notin> set s \<Longrightarrow> split_js c s = [s]"
  by (induction s) (auto split: list.splits)

lemma split_js_append: "c \<notin> set u \<Longrightarrow> split_js c (u @ c # v) = u # split_js c v"
  by (induction u) (auto split: list.splits)

lemma parseCoin_wrong_tag:
  "takeWhile (\<lambda>x. x \<noteq> CHR ''-'') s \<noteq> BANK_STR \<Longrightarrow>
   parseCoin BANK_STR s = Inl (InvalidIdentityString (Some (takeWhile (\<lambda>x. x \<noteq> CHR ''-'') s)))"
  by (simp add: parseCoin_def nth_opt_split_js_0 Let_def)

lemma parseCoin_right_tag:
  "takeWhile (\<lambda>x. x \<noteq> CHR ''-'') s = BANK_STR \<Longrightarrow>
   parseCoin BANK_STR s =
     Inr (splitHashes (nth_opt (split_js (CHR ''-'') s) 3),
          splitHashes (nth_opt (split_js (CHR ''-'') s) 4))"
  by (simp add: parseCoin_def nth_opt_split_js_0 Let_def)

lemma digit_in_digits: "k < 10 \<Longrightarrow> ''0123456789'' ! k \<in> set ''0123456789''"
  by (rule nth_mem) simp

lemma show_nat_digits: "set (show_nat n) \<subseteq> set ''0123456789''"
proof (induction n rule: show_nat.induct)
  case (1 n)
  show ?case
  proof (cases "n < 10")
    case True
    then show ?thesis
      using digit_in_digits [of n] by (subst show_nat.simps) simp
  next
    case False
    have "n mod 10 < 10" by simp
    with False 1 show ?thesis
      using digit_in_digits [of "n mod 10"] by (subst show_nat.simps) simp
  qed
qed

lemma show_nat_not_Nil: "show_nat n \<noteq> []"
  by (subst show_nat.simps) simp

lemma show_nat_no_delimiter:
  "CHR ''-'' \<notin> set (show_nat n)" "CHR '','' \<notin> set (show_nat n)"
  using show_nat_digits [of n] by auto

lemma join_js_Cons: "join_js sep (x # xs) = (if xs = [] then x else x @ sep @ join_js sep xs)"
  by (cases xs) simp_all

text \<open>
  Two arrays of the same length whose elements have the same lengths, position by position,
  are equal when their joins are.
\<close>

lemma join_js_inj:
  "list_all2 (\<lambda>a b. length a = length b) xs ys \<Longrightarrow> join_js sep xs = join_js sep ys \<Longrightarrow> xs = ys"
proof (induction xs ys rule: list_all2_induct)
  case Nil
  then show ?case by simp
next
  case (Cons x xs y ys)
  from Cons.hyps(2) have e: "xs = [] \<longleftrightarrow> ys = []"
    by (auto dest: list_all2_lengthD)
  show ?case
  proof (cases "xs = []")
    case True
    with e Cons.prems show ?thesis by simp
  next
    case False
    with e Cons.prems Cons.hyps(1) have "x = y \<and> join_js sep xs = join_js sep ys"
      by (simp add: join_js_Cons)
    with Cons.IH show ?thesis by simp
  qed
qed

lemma join_js_no_sep:
  "\<forall>h\<in>set hs. c \<notin> set h \<Longrightarrow> c \<notin> set sep \<Longrightarrow> c \<notin> set (join_js sep hs)"
  by (induction sep hs rule: join_js.induct) simp_all

lemma join_js_not_Nil: "hs \<noteq> [] \<Longrightarrow> \<forall>h\<in>set hs. h \<noteq> [] \<Longrightarrow> join_js sep hs \<noteq> []"
  by (induction sep hs rule: join_js.induct) simp_all

lemma split_join:
  "hs \<noteq> [] \<Longrightarrow> \<forall>h\<in>set hs. c \<notin> set h \<Longrightarrow> split_js c (join_js [c] hs) = hs"
proof (induction "[c]" hs rule: join_js.induct)
  case 1
  then show ?case by simp
next
  case (2 x)
  then show ?case by (simp add: split_js_no_sep)
next
  case (3 x y ys)
  then show ?case by (simp add: split_js_append)
qed

lemma splitHashes_join:
  assumes "\<forall>h\<in>set hs. h \<noteq> [] \<and> CHR '','' \<notin> set h"
  shows "splitHashes (Some (join_js '','' hs)) = hs"
proof (cases "hs = []")
  case True
  then show ?thesis by (simp add: splitHashes_def)
next
  case False
  with assms have "join_js '','' hs \<noteq> []" by (simp add: join_js_not_Nil)
  moreover from False assms have "split_js (CHR '','') (join_js '','' hs) = hs"
    by (simp add: split_join)
  ultimately show ?thesis by (simp add: splitHashes_def)
qed

text \<open>Parsing the canonical string gives back the two hash sequences it was built from.\<close>

lemma parse_canonical:
  assumes "CHR ''-'' \<notin> set b" "CHR ''-'' \<notin> set a" "CHR ''-'' \<notin> set g"
    and "\<forall>h\<in>set lh. h \<noteq> [] \<and> CHR ''-'' \<notin> set h \<and> CHR '','' \<notin> set h"
    and "\<forall>h\<in>set rh. h \<noteq> [] \<and> CHR ''-'' \<notin> set h \<and> CHR '','' \<notin> set h"
  shows "parseCoin b (b @ ''-'' @ a @ ''-'' @ g @ ''-'' @ join_js '','' lh @ ''-'' @ join_js '','' rh) =
           Inr (lh, rh)"
proof -
  have l: "CHR ''-'' \<notin> set (join_js '','' lh)" and r: "CHR ''-'' \<notin> set (join_js '','' rh)"
    using assms(4,5) by (simp_all add: join_js_no_sep)
  have "split_js (CHR ''-'')
          (b @ ''-'' @ a @ ''-'' @ g @ ''-'' @ join_js '','' lh @ ''-'' @ join_js '','' rh) =
        [b, a, g, join_js '','' lh, join_js '','' rh]"
    using assms(1-3) l r by (simp add: split_js_append split_js_no_sep)
  then show ?thesis
    using assms(4,5) by (simp add: parseCoin_def nth_opt_def splitHashes_join)
qed

section \<open>Lemmas on the one-time pad and the shares\<close>

lemma xor_char_cancel: "xor_char a (xor_char a b) = b"
  by (cases a; cases b) auto

lemma xor_char_cancel_right: "xor_char (xor_char a b) a = b"
  by (cases a; cases b) auto

lemma xor_char_self: "xor_char a a = CHR 0x00"
  by (cases a) simp

lemma length_xor_bytes: "length (xor_bytes a b) = min (length a) (length b)"
  by (simp add: xor_bytes_def)

lemma xor_bytes_cancel: "length a = length b \<Longrightarrow> xor_bytes a (xor_bytes a b) = b"
  by (induction a b rule: list_induct2) (simp_all add: xor_bytes_def xor_char_cancel)

lemma xor_bytes_cancel_right: "length a = length b \<Longrightarrow> xor_bytes (xor_bytes a b) a = b"
  by (induction a b rule: list_induct2) (simp_all add: xor_bytes_def xor_char_cancel_right)

lemma xor_bytes_self: "x \<in> set (xor_bytes a a) \<Longrightarrow> x = CHR 0x00"
  by (induction a) (auto simp: xor_bytes_def xor_char_self)

lemma startsWith_identityTag: "startsWith (identityTag IDENT_STR owner) IDENT_STR"
  by (simp add: startsWith_def identityTag_def)

lemma substring_identityTag:
  "substring (identityTag IDENT_STR owner) (length IDENT_STR + 1) = owner"
  by (simp add: substring_def identityTag_def)

lemma identityTag_not_zero: "CHR '':'' \<in> set (identityTag IDENT_STR owner)"
  by (simp add: identityTag_def)

text \<open>The two shares of one index: their lengths, their exclusive or, and that they differ.\<close>

lemma share_pair:
  assumes "length tag \<le> length key"
  shows "length (xor_bytes tag key) = length tag"
    and "length (xor_bytes (xor_bytes tag key) tag) = length tag"
    and "decryptOTP dec (xor_bytes tag key) (xor_bytes (xor_bytes tag key) tag) = Inr (dec tag)"
    and "decryptOTP dec (xor_bytes (xor_bytes tag key) tag) (xor_bytes tag key) = Inr (dec tag)"
proof -
  show l: "length (xor_bytes tag key) = length tag"
    using assms by (simp add: length_xor_bytes)
  then show "length (xor_bytes (xor_bytes tag key) tag) = length tag"
    by (simp add: length_xor_bytes)
  with l show "decryptOTP dec (xor_bytes tag key) (xor_bytes (xor_bytes tag key) tag) = Inr (dec tag)"
    by (simp add: decryptOTP_def xor_bytes_cancel)
  from l show "decryptOTP dec (xor_bytes (xor_bytes tag key) tag) (xor_bytes tag key) = Inr (dec tag)"
    by (simp add: decryptOTP_def xor_bytes_cancel_right length_xor_bytes)
qed

lemma digit7_xor_char: "digit7 (xor_char a b) = (digit7 a \<noteq> digit7 b)"
  by (cases a; cases b) simp

lemma ascii_xor_bytes: "ascii a \<Longrightarrow> ascii b \<Longrightarrow> ascii (xor_bytes a b)"
proof (induction a arbitrary: b)
  case Nil
  then show ?case by (simp add: ascii_def xor_bytes_def)
next
  case (Cons x a)
  then show ?case
    by (cases b) (simp_all add: ascii_def xor_bytes_def digit7_xor_char)
qed

lemma ascii_identityTag: "ascii IDENT_STR \<Longrightarrow> ascii owner \<Longrightarrow> ascii (identityTag IDENT_STR owner)"
  by (simp add: ascii_def identityTag_def)

lemma share_pair_distinct:
  assumes "length tag \<le> length key" and "CHR '':'' \<in> set tag"
  shows "xor_bytes tag key \<noteq> xor_bytes (xor_bytes tag key) tag"
proof
  let ?l = "xor_bytes tag key"
  assume eq: "?l = xor_bytes ?l tag"
  have "length ?l = length tag" using assms(1) by (simp add: length_xor_bytes)
  then have "xor_bytes ?l (xor_bytes ?l tag) = tag" by (rule xor_bytes_cancel)
  with eq have "xor_bytes ?l ?l = tag" by simp
  with assms(2) have "CHR '':'' \<in> set (xor_bytes ?l ?l)" by simp
  then have "CHR '':'' = CHR 0x00" by (rule xor_bytes_self)
  then show False by simp
qed

lemma construct_fields:
  assumes "construct hash BANK_STR IDENT_STR owner amt g keys = Inr c"
  shows "guid c = g" "amount c = amt" "0 < amt"
    "leftIdent c = Some (map (\<lambda>key. xor_bytes (identityTag IDENT_STR owner) key) keys)"
    "rightIdent c = Some (map (\<lambda>key. xor_bytes (xor_bytes (identityTag IDENT_STR owner) key)
        (identityTag IDENT_STR owner)) keys)"
    "coinString c = BANK_STR @ ''-'' @ show_nat (nat amt) @ ''-'' @ g @ ''-'' @
       join_js '','' (map (\<lambda>key. hash (xor_bytes (identityTag IDENT_STR owner) key)) keys) @ ''-'' @
       join_js '','' (map (\<lambda>key. hash (xor_bytes (xor_bytes (identityTag IDENT_STR owner) key)
        (identityTag IDENT_STR owner))) keys)"
  using assms by (auto simp: construct_def Let_def comp_def split: if_splits)

lemma ex_alice_construct:
  "construct ex_hash ''BANK'' ''IDENT'' ''alice'' 20 ''g1'' [''9038aOWTXS3'', ''3w48dVWTY40''] =
     Inr ex_alice"
  by (simp add: construct_def identityTag_def xor_bytes_def ex_hash_def ex_alice_def Let_def
      show_nat.simps)

lemma ex_hash_digest:
  "\<forall>x. ex_hash x \<noteq> [] \<and> CHR ''-'' \<notin> set (ex_hash x) \<and> CHR '','' \<notin> set (ex_hash x)"
  by (simp add: ex_hash_def show_nat_not_Nil show_nat_no_delimiter)

section \<open>Lemmas on acceptance\<close>

lemma acceptCoin_parse_error:
  "verify (signature c) (toString c) \<Longrightarrow> parseCoin BANK_STR (toString c) = Inl e \<Longrightarrow>
   acceptCoin verify hash BANK_STR n c w = (Inl e, w)"
  by (simp add: acceptCoin_def)

lemma acceptCoin_hash_count:
  "verify (signature c) (toString c) \<Longrightarrow> parseCoin BANK_STR (toString c) = Inr (lh, rh) \<Longrightarrow>
   length lh \<noteq> n \<or> length rh \<noteq> n \<Longrightarrow>
   acceptCoin verify hash BANK_STR n c w = (Inl (InvalidHashCount n (length lh) (length rh)), w)"
  by (auto simp add: acceptCoin_def)

lemma gatherRis_pass:
  "list_all (sharePasses hash c sl lh rh) js \<Longrightarrow>
   gatherRis hash c sl lh rh (js @ rest) acc =
   gatherRis hash c sl lh rh rest (acc @ map (\<lambda>j. the (getRis c sl j)) js)"
  by (induction js arbitrary: acc) (auto simp: sharePasses_def split: option.splits)

lemma gatherRis_Inr:
  "gatherRis hash c sl lh rh js acc = Inr ris \<Longrightarrow>
   list_all (sharePasses hash c sl lh rh) js \<and> ris = acc @ map (\<lambda>j. the (getRis c sl j)) js"
proof (induction js arbitrary: acc)
  case Nil
  then show ?case by simp
next
  case (Cons j js)
  show ?case
  proof (cases "getRis c sl j")
    case None
    with Cons.prems show ?thesis by simp
  next
    case (Some p)
    with Cons.prems have ok: "p \<noteq> []"
      "Some (hash p) = (if sl then nth_opt lh j else nth_opt rh j)"
      and rec: "gatherRis hash c sl lh rh js (acc @ [p]) = Inr ris"
      by (simp_all add: Let_def split: if_splits)
    from Cons.IH [OF rec] Some ok show ?thesis
      by (simp add: sharePasses_def)
  qed
qed

lemma upt_split: "i < n \<Longrightarrow> [0..<n] = [0..<i] @ i # [Suc i..<n]"
  by (metis le_add1 less_imp_add_positive upt_add_eq_append upt_conv_Cons plus_nat.add_0)

lemma ex_coin_accepted:
  "acceptCoin ex_verify ex_hash ''BANK'' 2 ex_coin ex_world =
     (Inr [''ab'', ''cd''],
      \<lparr>draws = False ## sconst True, console = [CoinAccepted ''g1'' 20 True 2]\<rparr>)"
  by (simp add: acceptCoin_def ex_verify_def ex_hash_def ex_world_def ex_coin_def toString_def
      parseCoin_def nth_opt_def splitHashes_def getRis_def console_log_def upt_conv_Cons
      show_nat.simps)

text \<open>The shape of a successful run: one draw, and the shares of the side it selects.\<close>

lemma acceptCoin_Inr_shape:
  assumes "acceptCoin verify hash BANK_STR n c w = (Inr ris, w')"
  shows "\<exists>ident. (if shd (draws w) then leftIdent c else rightIdent c) = Some ident \<and>
           n \<le> length ident \<and> ris = take n ident \<and>
           draws w' = stl (draws w)"
proof -
  let ?sl = "shd (draws w)"
  from assms obtain lh rh where
    li: "leftIdent c \<noteq> None" and ri: "rightIdent c \<noteq> None" and
    g: "gatherRis hash c ?sl lh rh [0..<n] [] = Inr ris" and
    w': "w' = console_log (CoinAccepted (guid c) (amount c) ?sl (length ris))
                (w\<lparr>draws := stl (draws w)\<rparr>)"
    by (auto simp: acceptCoin_def Let_def split: if_splits sum.splits prod.splits)
  from li ri obtain ident where id: "(if ?sl then leftIdent c else rightIdent c) = Some ident"
    by (cases "?sl") auto
  from gatherRis_Inr [OF g] have
    pass: "list_all (sharePasses hash c ?sl lh rh) [0..<n]" and
    ris: "ris = map (\<lambda>j. the (getRis c ?sl j)) [0..<n]" by simp_all
  have get: "getRis c ?sl j = nth_opt ident j" for j
    using id by (simp add: getRis_def)
  have len: "n \<le> length ident"
  proof (rule ccontr)
    assume "\<not> n \<le> length ident"
    then have "length ident < n" by simp
    with pass have "sharePasses hash c ?sl lh rh (length ident)"
      by (simp add: list_all_iff)
    then show False by (simp add: sharePasses_def get nth_opt_def)
  qed
  have "ris = take n ident"
    unfolding ris using len
    by (intro nth_equalityI) (simp_all add: get nth_opt_def)
  with id len w' show ?thesis by (simp add: console_log_def)
qed

text \<open>A coin from the constructor, once validly signed, is parsed and accepted.\<close>

lemma constructed_accepted:
  assumes con: "construct hash BANK_STR IDENT_STR owner amt g keys = Inr c"
    and n: "length keys = n"
    and keys: "\<forall>key\<in>set keys. length (identityTag IDENT_STR owner) \<le> length key"
    and b: "CHR ''-'' \<notin> set BANK_STR" and g: "CHR ''-'' \<notin> set g"
    and h: "\<forall>x. hash x \<noteq> [] \<and> CHR ''-'' \<notin> set (hash x) \<and> CHR '','' \<notin> set (hash x)"
    and v: "verify sg (toString c)"
  shows "parseCoin BANK_STR (toString c) =
           Inr (map hash (the (leftIdent c)), map hash (the (rightIdent c)))"
    and "acceptCoin verify hash BANK_STR n (c\<lparr>signature := sg\<rparr>) w =
           (Inr (the (if shd (draws w) then leftIdent c else rightIdent c)),
            console_log (CoinAccepted g amt (shd (draws w)) n) (w\<lparr>draws := stl (draws w)\<rparr>))"
proof -
  let ?tag = "identityTag IDENT_STR owner"
  let ?L = "map (\<lambda>key. xor_bytes ?tag key) keys"
  let ?R = "map (\<lambda>key. xor_bytes (xor_bytes ?tag key) ?tag) keys"
  let ?c = "c\<lparr>signature := sg\<rparr>"
  let ?sl = "shd (draws w)"
  note f = construct_fields [OF con]
  have lh: "map (\<lambda>key. hash (xor_bytes ?tag key)) keys = map hash ?L"
    and rh: "map (\<lambda>key. hash (xor_bytes (xor_bytes ?tag key) ?tag)) keys = map hash ?R"
    by simp_all
  have p: "parseCoin BANK_STR (toString c) = Inr (map hash ?L, map hash ?R)"
    unfolding toString_def f(6) lh rh
    using b g h by (intro parse_canonical) (simp_all add: show_nat_no_delimiter)
  with f(4,5) show "parseCoin BANK_STR (toString c) =
           Inr (map hash (the (leftIdent c)), map hash (the (rightIdent c)))"
    by simp
  have tag: "0 < length ?tag" by (simp add: identityTag_def)
  have pass: "sharePasses hash ?c ?sl (map hash ?L) (map hash ?R) i" if "i < n" for i
  proof -
    from that n have "keys ! i \<in> set keys" by simp
    with keys have "length ?tag \<le> length (keys ! i)" by blast
    from share_pair(1,2) [OF this] tag that n f(4,5) show ?thesis
      by (cases ?sl) (auto simp: sharePasses_def getRis_def nth_opt_def)
  qed
  then have "list_all (sharePasses hash ?c ?sl (map hash ?L) (map hash ?R)) [0..<n]"
    by (simp add: list_all_iff)
  from gatherRis_pass [OF this, of "[]" "[]"]
  have "gatherRis hash ?c ?sl (map hash ?L) (map hash ?R) [0..<n] [] =
          Inr (map (\<lambda>j. the (getRis ?c ?sl j)) [0..<n])"
    by simp
  also have "map (\<lambda>j. the (getRis ?c ?sl j)) [0..<n] = (if ?sl then ?L else ?R)"
    using n f(4,5) by (intro nth_equalityI) (auto simp: getRis_def nth_opt_def)
  finally have gr: "gatherRis hash ?c ?sl (map hash ?L) (map hash ?R) [0..<n] [] =
      Inr (if ?sl then ?L else ?R)" .
  have ts: "toString ?c = toString c" by (simp add: toString_def)
  show "acceptCoin verify hash BANK_STR n ?c w =
           (Inr (the (if ?sl then leftIdent c else rightIdent c)),
            console_log (CoinAccepted g amt ?sl n) (w\<lparr>draws := stl (draws w)\<rparr>))"
    using v p gr n f(1,2,4,5) by (simp add: acceptCoin_def ts Let_def)
qed

lemma ex_coin_bad_parse:
  "parseCoin ''BANK'' (toString ex_coin_bad) = Inr ([''195'', ''1''], [''203'', ''1''])"
  by (simp add: parseCoin_def toString_def ex_coin_bad_def nth_opt_def splitHashes_def)

text \<open>Two runs on the signed example coin, the first on the left side, the second on the right.\<close>

lemma ex_alice_left:
  "acceptCoin ex_verify ex_hash ''BANK'' 2 (ex_alice\<lparr>signature := 26\<rparr>) ex_world =
     (Inr [''ptvv5u6810V'', ''z3qv0l680WU''],
      \<lparr>draws = False ## sconst True, console = [CoinAccepted ''g1'' 20 True 2]\<rparr>)"
  by (simp add: acceptCoin_def ex_verify_def ex_hash_def ex_world_def ex_alice_def toString_def
      parseCoin_def nth_opt_def splitHashes_def getRis_def console_log_def upt_conv_Cons
      show_nat.simps)

lemma ex_alice_right:
  "acceptCoin ex_verify ex_hash ''BANK'' 2 (ex_alice\<lparr>signature := 26\<rparr>)
     \<lparr>draws = False ## sconst True, console = [CoinAccepted ''g1'' 20 True 2]\<rparr> =
     (Inr [''9038aOWTXS3'', ''3w48dVWTY40''],
      \<lparr>draws = sconst True,
        console = [CoinAccepted ''g1'' 20 True 2, CoinAccepted ''g1'' 20 False 2]\<rparr>)"
  by (simp add: acceptCoin_def ex_verify_def ex_hash_def ex_alice_def toString_def
      parseCoin_def nth_opt_def splitHashes_def getRis_def console_log_def upt_conv_Cons
      show_nat.simps)

section \<open>Lemmas on adjudication\<close>

lemma cheaterLoop_skip:
  "list_all (\<lambda>j. \<exists>a b x. nth_opt ris1 j = Some a \<and> nth_opt ris2 j = Some b \<and>
       otp (bufferFrom a) (bufferFrom b) = Inr x \<and> \<not> startsWith x IDENT_STR) js \<Longrightarrow>
   cheaterLoop IDENT_STR bufferFrom otp ris1 ris2 (js @ rest) =
   cheaterLoop IDENT_STR bufferFrom otp ris1 ris2 rest"
  by (induction js) auto

lemma determineCheater_first_hit:
  assumes "join_js '','' (map toStr ris1) \<noteq> join_js '','' (map toStr ris2)"
    and "i < n"
    and "\<forall>j<i. \<exists>a b x. nth_opt ris1 j = Some a \<and> nth_opt ris2 j = Some b \<and>
           otp (bufferFrom a) (bufferFrom b) = Inr x \<and> \<not> startsWith x IDENT_STR"
    and "nth_opt ris1 i = Some a" and "nth_opt ris2 i = Some b"
    and "otp (bufferFrom a) (bufferFrom b) = Inr x" and "startsWith x IDENT_STR"
  shows "determineCheater n IDENT_STR toStr bufferFrom otp g ris1 ris2 w =
           (None, console_log (SpenderCheating g (substring x (length IDENT_STR + 1))) w)"
proof -
  have skip: "list_all (\<lambda>j. \<exists>a b x. nth_opt ris1 j = Some a \<and> nth_opt ris2 j = Some b \<and>
       otp (bufferFrom a) (bufferFrom b) = Inr x \<and> \<not> startsWith x IDENT_STR) [0..<i]"
    using assms(3) by (simp add: list_all_iff)
  have "cheaterLoop IDENT_STR bufferFrom otp ris1 ris2 [0..<n] =
        cheaterLoop IDENT_STR bufferFrom otp ris1 ris2 (i # [Suc i..<n])"
    using cheaterLoop_skip [OF skip] upt_split [OF assms(2)] by simp
  also have "\<dots> = Inr (Some (substring x (length IDENT_STR + 1)))"
    using assms(4-7) by simp
  finally show ?thesis
    using assms(1) by (simp add: determineCheater_def)
qed

lemma determineCheater_same:
  "determineCheater n IDENT_STR toStr bufferFrom otp g ris ris w =
     (None, console_log (MerchantCheating g) w)"
  by (simp add: determineCheater_def)

text \<open>
  The outcome of a call is fixed by the arguments: the error thrown, if any, and the lines
  written, at most one, are the same in every world.
\<close>

lemma determineCheater_outcome:
  "\<exists>e ls. length ls \<le> 1 \<and> (\<forall>v. determineCheater n IDENT_STR toStr bufferFrom otp g ris1 ris2 v =
          (e, v\<lparr>console := console v @ ls\<rparr>))"
proof (cases "join_js '','' (map toStr ris1) = join_js '','' (map toStr ris2)")
  case True
  then have "\<forall>v. determineCheater n IDENT_STR toStr bufferFrom otp g ris1 ris2 v =
        (None, v\<lparr>console := console v @ [MerchantCheating g]\<rparr>)"
    by (simp add: determineCheater_def console_log_def)
  then show ?thesis by (intro exI [of _ None] exI [of _ "[MerchantCheating g]"]) simp
next
  case False
  show ?thesis
  proof (cases "cheaterLoop IDENT_STR bufferFrom otp ris1 ris2 [0..<n]")
    case (Inl e)
    with False have "\<forall>v. determineCheater n IDENT_STR toStr bufferFrom otp g ris1 ris2 v =
        (Some e, v\<lparr>console := console v @ []\<rparr>)"
      by (simp add: determineCheater_def)
    then show ?thesis by (intro exI [of _ "Some e"] exI [of _ "[]"]) simp
  next
    case (Inr r)
    let ?l = "case r of Some cheaterId \<Rightarrow> SpenderCheating g cheaterId | None \<Rightarrow> Inconclusive g"
    from False Inr have "\<forall>v. determineCheater n IDENT_STR toStr bufferFrom otp g ris1 ris2 v =
        (None, v\<lparr>console := console v @ [?l]\<rparr>)"
      by (simp add: determineCheater_def console_log_def split: option.splits)
    then show ?thesis by (intro exI [of _ None] exI [of _ "[?l]"]) simp
  qed
qed

text \<open>
  The left shares against the right shares of a constructed coin, in either order, when the
  identity tag and the keys are ASCII and the conversions of the runtime change no ASCII
  string.
\<close>

lemma opposite_sides:
  assumes keys: "\<forall>key\<in>set keys. length tag \<le> length key \<and> ascii key"
    and tag: "tag = identityTag IDENT_STR owner" and atag: "ascii tag"
    and ts: "\<forall>s. ascii s \<longrightarrow> toStr s = s" and bf: "\<forall>s. ascii s \<longrightarrow> bufferFrom s = s"
    and dec: "\<forall>b. ascii b \<longrightarrow> dec b = b"
    and n: "0 < n" "n \<le> length keys"
    and L: "L = map (\<lambda>key. xor_bytes tag key) keys"
    and R: "R = map (\<lambda>key. xor_bytes (xor_bytes tag key) tag) keys"
  shows "determineCheater n IDENT_STR toStr bufferFrom (decryptOTP dec) g (take n L) (take n R) w =
           (None, console_log (SpenderCheating g owner) w)"
    and "determineCheater n IDENT_STR toStr bufferFrom (decryptOTP dec) g (take n R) (take n L) w =
           (None, console_log (SpenderCheating g owner) w)"
proof -
  from n have lk: "0 < length keys" by linarith
  then have k0: "keys ! 0 \<in> set keys" by (rule nth_mem)
  with keys have len0: "length tag \<le> length (keys ! 0)" and a0: "ascii (keys ! 0)" by blast+
  let ?l = "xor_bytes tag (keys ! 0)"
  let ?r = "xor_bytes ?l tag"
  have al: "ascii ?l" using atag a0 by (rule ascii_xor_bytes)
  then have ar: "ascii ?r" using atag by (rule ascii_xor_bytes)
  have aL: "\<forall>s\<in>set L. ascii s" and aR: "\<forall>s\<in>set R. ascii s"
    using keys atag by (auto simp: L R intro: ascii_xor_bytes)
  have mL: "map toStr (take n L) = take n L" and mR: "map toStr (take n R) = take n R"
    using aL aR ts by (auto intro!: map_idI dest: in_set_takeD)
  have l0: "nth_opt (take n L) 0 = Some ?l" and r0: "nth_opt (take n R) 0 = Some ?r"
    using n lk by (simp_all add: nth_opt_def L R)
  have ne: "?l \<noteq> ?r"
    using len0 by (rule share_pair_distinct) (simp add: tag identityTag_not_zero)
  have all2: "list_all2 (\<lambda>a b. length a = length b) (take n L) (take n R)"
    using keys n by (simp add: list_all2_conv_all_nth L R share_pair(1,2))
  have all2': "list_all2 (\<lambda>a b. length a = length b) (take n R) (take n L)"
    using keys n by (simp add: list_all2_conv_all_nth L R share_pair(1,2))
  have "take n L \<noteq> take n R"
    using l0 r0 ne by auto
  with all2 all2' have j: "join_js '','' (map toStr (take n L)) \<noteq> join_js '','' (map toStr (take n R))"
    and j': "join_js '','' (map toStr (take n R)) \<noteq> join_js '','' (map toStr (take n L))"
    unfolding mL mR by (auto dest: join_js_inj)
  have sw: "startsWith (dec tag) IDENT_STR"
    using dec atag startsWith_identityTag [of IDENT_STR owner] by (simp add: tag)
  have sub: "substring (dec tag) (length IDENT_STR + 1) = owner"
    using dec atag substring_identityTag [of IDENT_STR owner] by (simp add: tag)
  have bl: "bufferFrom ?l = ?l" and br: "bufferFrom ?r = ?r"
    using bf al ar by simp_all
  have "determineCheater n IDENT_STR toStr bufferFrom (decryptOTP dec) g (take n L) (take n R) w =
          (None, console_log (SpenderCheating g (substring (dec tag) (length IDENT_STR + 1))) w)"
  proof (rule determineCheater_first_hit [where i = 0])
    show "decryptOTP dec (bufferFrom ?l) (bufferFrom ?r) = Inr (dec tag)"
      unfolding bl br using len0 by (rule share_pair(3))
  qed (use j n l0 r0 sw in simp_all)
  then show "determineCheater n IDENT_STR toStr bufferFrom (decryptOTP dec) g (take n L) (take n R) w =
           (None, console_log (SpenderCheating g owner) w)"
    by (simp only: sub)
  have "determineCheater n IDENT_STR toStr bufferFrom (decryptOTP dec) g (take n R) (take n L) w =
          (None, console_log (SpenderCheating g (substring (dec tag) (length IDENT_STR + 1))) w)"
  proof (rule determineCheater_first_hit [where i = 0])
    show "decryptOTP dec (bufferFrom ?r) (bufferFrom ?l) = Inr (dec tag)"
      unfolding bl br using len0 by (rule share_pair(4))
  qed (use j' n l0 r0 sw in simp_all)
  then show "determineCheater n IDENT_STR toStr bufferFrom (decryptOTP dec) g (take n R) (take n L) w =
           (None, console_log (SpenderCheating g owner) w)"
    by (simp only: sub)
qed

section \<open>Acceptance: the checks of the coin\<close>

text \<open>
  Claim C5. The signature is verified first: when \<open>verify\<close> returns false on the coin's
  signature and canonical string, acceptance fails with the invalid-signature error, whatever
  the rest of the coin is. No draw is consumed and nothing is written, and the result is the
  same whatever shares the coin holds: no share is requested or revealed.
\<close>

theorem acceptCoin_invalid_signature:
  assumes "\<not> verify (signature c) (toString c)"
  shows "acceptCoin verify hash BANK_STR n c w = (Inl InvalidCoinSignature, w) \<and>
         (\<forall>l r. acceptCoin verify hash BANK_STR n (c\<lparr>leftIdent := l, rightIdent := r\<rparr>) w =
                (Inl InvalidCoinSignature, w))"
  using assms by (simp add: acceptCoin_def toString_def)

theorem acceptCoin_invalid_signature_witness:
  "\<not> ex_verify (signature (ex_coin\<lparr>signature := 3\<rparr>)) (toString (ex_coin\<lparr>signature := 3\<rparr>)) \<and>
   acceptCoin ex_verify ex_hash ''BANK'' 2 (ex_coin\<lparr>signature := 3\<rparr>) ex_world =
     (Inl InvalidCoinSignature, ex_world)"
proof -
  have h: "\<not> ex_verify (signature (ex_coin\<lparr>signature := 3\<rparr>)) (toString (ex_coin\<lparr>signature := 3\<rparr>))"
    by (simp add: ex_verify_def ex_coin_def toString_def)
  from h acceptCoin_invalid_signature
      [of ex_verify "ex_coin\<lparr>signature := 3\<rparr>" ex_hash "''BANK''" 2 ex_world]
  show ?thesis by simp
qed

text \<open>
  Claim C6. Parsing fails with the invalid-identity-string error whenever the leading field
  of the string (the characters before the first \<open>-\<close>) is not the bank tag, and acceptance of a
  coin with a valid signature fails with that error too. Acceptance of a coin with a valid
  signature fails with the hash-count error whenever either parsed hash sequence has a length
  other than \<open>COIN_RIS_LENGTH\<close>. The world is unchanged in both cases.
\<close>

theorem malformed_coin_rejected:
  "(takeWhile (\<lambda>x. x \<noteq> CHR ''-'') s \<noteq> BANK_STR \<longrightarrow>
      parseCoin BANK_STR s =
        Inl (InvalidIdentityString (Some (takeWhile (\<lambda>x. x \<noteq> CHR ''-'') s)))) \<and>
   (verify (signature c) (toString c) \<and>
    takeWhile (\<lambda>x. x \<noteq> CHR ''-'') (toString c) \<noteq> BANK_STR \<longrightarrow>
      acceptCoin verify hash BANK_STR n c w =
        (Inl (InvalidIdentityString (Some (takeWhile (\<lambda>x. x \<noteq> CHR ''-'') (toString c)))), w)) \<and>
   (verify (signature c) (toString c) \<and> parseCoin BANK_STR (toString c) = Inr (lh, rh) \<and>
    (length lh \<noteq> n \<or> length rh \<noteq> n) \<longrightarrow>
      acceptCoin verify hash BANK_STR n c w =
        (Inl (InvalidHashCount n (length lh) (length rh)), w))"
  using parseCoin_wrong_tag [of s BANK_STR] parseCoin_wrong_tag [of "toString c" BANK_STR]
    acceptCoin_parse_error [of verify c BANK_STR _ hash n w]
    acceptCoin_hash_count [of verify c BANK_STR lh rh n hash w]
  by simp

theorem malformed_coin_rejected_witness:
  "parseCoin ''BANK'' ''BONK-20-g1-h1,h2-h3,h4'' = Inl (InvalidIdentityString (Some ''BONK'')) \<and>
   acceptCoin ex_verify ex_hash ''BANK'' 2
     (ex_coin\<lparr>coinString := ''BONK-20-g1-h1,h2-h3,h4'', signature := 22\<rparr>) ex_world =
     (Inl (InvalidIdentityString (Some ''BONK'')), ex_world) \<and>
   parseCoin ''BANK'' ''BANK-20-g1-h1,h2-h3'' = Inr ([''h1'', ''h2''], [''h3'']) \<and>
   acceptCoin ex_verify ex_hash ''BANK'' 2
     (ex_coin\<lparr>coinString := ''BANK-20-g1-h1,h2-h3'', signature := 19\<rparr>) ex_world =
     (Inl (InvalidHashCount 2 2 1), ex_world)"
proof -
  have p: "parseCoin ''BANK'' ''BANK-20-g1-h1,h2-h3'' = Inr ([''h1'', ''h2''], [''h3''])"
    by (simp add: parseCoin_def nth_opt_def splitHashes_def)
  from p
    malformed_coin_rejected [of "''BONK-20-g1-h1,h2-h3,h4''" "''BANK''" ex_verify
      "ex_coin\<lparr>coinString := ''BONK-20-g1-h1,h2-h3,h4'', signature := 22\<rparr>" ex_hash 2 ex_world
      "[]" "[]"]
    malformed_coin_rejected [of "[]" "''BANK''" ex_verify
      "ex_coin\<lparr>coinString := ''BANK-20-g1-h1,h2-h3'', signature := 19\<rparr>" ex_hash 2 ex_world
      "[''h1'', ''h2'']" "[''h3'']"]
  show ?thesis
    by (simp add: toString_def ex_verify_def ex_coin_def)
qed

text \<open>
  Claim C10. When the leading field of the string is the bank tag, parsing raises no error,
  and a hash segment (the field of position 3 for the left hashes, of position 4 for the right
  hashes) that is absent or empty is parsed as the empty array. The rejection is left to the
  length check of acceptance: for a positive \<open>COIN_RIS_LENGTH\<close> and a valid signature,
  acceptance of a coin with such a string fails with the hash-count error.
\<close>

theorem parseCoin_missing_segments:
  assumes "takeWhile (\<lambda>x. x \<noteq> CHR ''-'') s = BANK_STR"
  shows "\<exists>lh rh. parseCoin BANK_STR s = Inr (lh, rh) \<and>
           (segmentMissing s 3 \<longrightarrow> lh = []) \<and> (segmentMissing s 4 \<longrightarrow> rh = []) \<and>
           (\<forall>c w. toString c = s \<and> verify (signature c) s \<and> 0 < n \<and>
                  (segmentMissing s 3 \<or> segmentMissing s 4) \<longrightarrow>
                  acceptCoin verify hash BANK_STR n c w =
                    (Inl (InvalidHashCount n (length lh) (length rh)), w))"
proof -
  let ?lh = "splitHashes (nth_opt (split_js (CHR ''-'') s) 3)"
  let ?rh = "splitHashes (nth_opt (split_js (CHR ''-'') s) 4)"
  have p: "parseCoin BANK_STR s = Inr (?lh, ?rh)"
    using assms by (rule parseCoin_right_tag)
  have l: "segmentMissing s 3 \<longrightarrow> ?lh = []"
    by (auto simp: segmentMissing_def splitHashes_def)
  have r: "segmentMissing s 4 \<longrightarrow> ?rh = []"
    by (auto simp: segmentMissing_def splitHashes_def)
  have a: "acceptCoin verify hash BANK_STR n c w =
             (Inl (InvalidHashCount n (length ?lh) (length ?rh)), w)"
    if "toString c = s" "verify (signature c) s" "0 < n"
       "segmentMissing s 3 \<or> segmentMissing s 4" for c w
  proof -
    from that(3,4) l r have "length ?lh \<noteq> n \<or> length ?rh \<noteq> n" by auto
    with that(1,2) p show ?thesis
      using acceptCoin_hash_count [of verify c BANK_STR ?lh ?rh n hash w] by simp
  qed
  from p l r a show ?thesis by blast
qed

theorem parseCoin_missing_segments_witness:
  "takeWhile (\<lambda>x. x \<noteq> CHR ''-'') ''BANK-20-g1--203,207'' = ''BANK'' \<and>
   segmentMissing ''BANK-20-g1--203,207'' 3 \<and>
   parseCoin ''BANK'' ''BANK-20-g1--203,207'' = Inr ([], [''203'', ''207'']) \<and>
   acceptCoin ex_verify ex_hash ''BANK'' 2
     (ex_coin\<lparr>coinString := ''BANK-20-g1--203,207'', signature := 19\<rparr>) ex_world =
     (Inl (InvalidHashCount 2 0 2), ex_world)"
proof -
  have t: "takeWhile (\<lambda>x. x \<noteq> CHR ''-'') ''BANK-20-g1--203,207'' = ''BANK''" by simp
  have m: "segmentMissing ''BANK-20-g1--203,207'' 3"
    by (simp add: segmentMissing_def nth_opt_def)
  have p: "parseCoin ''BANK'' ''BANK-20-g1--203,207'' = Inr ([], [''203'', ''207''])"
    by (simp add: parseCoin_def nth_opt_def splitHashes_def)
  from parseCoin_missing_segments [OF t, of ex_verify 2 ex_hash] p
  have "\<forall>c w. toString c = ''BANK-20-g1--203,207'' \<and>
          ex_verify (signature c) ''BANK-20-g1--203,207'' \<and>
          (segmentMissing ''BANK-20-g1--203,207'' 3 \<or> segmentMissing ''BANK-20-g1--203,207'' 4) \<longrightarrow>
          acceptCoin ex_verify ex_hash ''BANK'' 2 c w = (Inl (InvalidHashCount 2 0 2), w)"
    by simp
  with m have "acceptCoin ex_verify ex_hash ''BANK'' 2
      (ex_coin\<lparr>coinString := ''BANK-20-g1--203,207'', signature := 19\<rparr>) ex_world =
      (Inl (InvalidHashCount 2 0 2), ex_world)"
    by (simp add: toString_def ex_verify_def ex_coin_def)
  with t m p show ?thesis by simp
qed

section \<open>Acceptance: the revealed identity strings\<close>

text \<open>
  Claim C8. In every successful run of acceptance one draw of the random source is consumed,
  which selects the side for the whole run, and the returned sequence is the first
  \<open>COIN_RIS_LENGTH\<close> shares of the coin on that one side, in order.
\<close>

theorem acceptCoin_single_side:
  assumes "acceptCoin verify hash BANK_STR n c w = (Inr ris, w')"
  shows "\<exists>ident. (if shd (draws w) then leftIdent c else rightIdent c) = Some ident \<and>
           n \<le> length ident \<and> ris = take n ident \<and>
           draws w' = stl (draws w)"
  using assms by (rule acceptCoin_Inr_shape)

theorem acceptCoin_single_side_witness:
  "acceptCoin ex_verify ex_hash ''BANK'' 2 ex_coin ex_world =
     (Inr [''ab'', ''cd''],
      \<lparr>draws = False ## sconst True, console = [CoinAccepted ''g1'' 20 True 2]\<rparr>) \<and>
   shd (draws ex_world) \<and> leftIdent ex_coin = Some [''ab'', ''cd''] \<and>
   [''ab'', ''cd''] = take 2 [''ab'', ''cd''] \<and>
   False ## sconst True = stl (draws ex_world)"
  using acceptCoin_single_side [OF ex_coin_accepted] ex_coin_accepted
  by (simp add: ex_world_def ex_coin_def)

text \<open>
  Claim C4, as the code has it. A coin from the constructor that the bank has validly signed,
  and whose canonical string has fields free of its delimiters (the bank tag and the
  identifier contain no \<open>-\<close>, and a digest is not empty and contains neither \<open>-\<close> nor a
  comma), every key being at least as long as the identity tag, is accepted in one call: the
  call raises no error and returns exactly \<open>COIN_RIS_LENGTH\<close> shares, and the hash of each is
  the commitment of its index, on the chosen side, as parsed from the canonical string.
\<close>

theorem fresh_coin_accepted:
  assumes "construct hash BANK_STR IDENT_STR owner amt g keys = Inr c"
    and "length keys = n"
    and "\<forall>key\<in>set keys. length (identityTag IDENT_STR owner) \<le> length key"
    and "CHR ''-'' \<notin> set BANK_STR" and "CHR ''-'' \<notin> set g"
    and "\<forall>x. hash x \<noteq> [] \<and> CHR ''-'' \<notin> set (hash x) \<and> CHR '','' \<notin> set (hash x)"
    and "verify sg (toString c)"
  shows "\<exists>ris lh rh.
           fst (acceptCoin verify hash BANK_STR n (c\<lparr>signature := sg\<rparr>) w) = Inr ris \<and>
           length ris = n \<and>
           parseCoin BANK_STR (toString c) = Inr (lh, rh) \<and> length lh = n \<and> length rh = n \<and>
           (\<forall>i<n. hash (ris ! i) = (if shd (draws w) then lh else rh) ! i)"
proof -
  note f = construct_fields [OF assms(1)]
  note a = constructed_accepted(1) [where hash = hash and verify = verify and sg = sg, OF assms]
    constructed_accepted(2) [where hash = hash and verify = verify and sg = sg and w = w, OF assms]
  let ?ris = "the (if shd (draws w) then leftIdent c else rightIdent c)"
  let ?lh = "map hash (the (leftIdent c))" and ?rh = "map hash (the (rightIdent c))"
  have "fst (acceptCoin verify hash BANK_STR n (c\<lparr>signature := sg\<rparr>) w) = Inr ?ris"
    by (simp add: a(2))
  moreover have "length ?ris = n" "length ?lh = n" "length ?rh = n"
    using assms(2) f(4,5) by simp_all
  moreover have "\<forall>i<n. hash (?ris ! i) = (if shd (draws w) then ?lh else ?rh) ! i"
    using assms(2) f(4,5) by simp
  ultimately show ?thesis using a(1) by blast
qed

theorem fresh_coin_accepted_witness:
  "construct ex_hash ''BANK'' ''IDENT'' ''alice'' 20 ''g1'' [''9038aOWTXS3'', ''3w48dVWTY40''] =
     Inr ex_alice \<and>
   ex_verify 26 (toString ex_alice) \<and>
   fst (acceptCoin ex_verify ex_hash ''BANK'' 2 (ex_alice\<lparr>signature := 26\<rparr>) ex_world) =
     Inr [''ptvv5u6810V'', ''z3qv0l680WU''] \<and>
   parseCoin ''BANK'' (toString ex_alice) = Inr ([''927'', ''890''], [''781'', ''824'']) \<and>
   ex_hash ''ptvv5u6810V'' = ''927'' \<and> ex_hash ''z3qv0l680WU'' = ''890''"
proof -
  have v: "ex_verify 26 (toString ex_alice)"
    by (simp add: ex_verify_def toString_def ex_alice_def)
  have k: "\<forall>key\<in>set [''9038aOWTXS3'', ''3w48dVWTY40''].
             length (identityTag ''IDENT'' ''alice'') \<le> length key"
    by (simp add: identityTag_def)
  have p: "parseCoin ''BANK'' (toString ex_alice) = Inr ([''927'', ''890''], [''781'', ''824''])"
    by (simp add: parseCoin_def toString_def ex_alice_def nth_opt_def splitHashes_def)
  from fresh_coin_accepted [where hash = ex_hash and verify = ex_verify and sg = 26 and
      w = ex_world and n = 2, OF ex_alice_construct _ k _ _ ex_hash_digest v]
  obtain ris lh rh where
    r: "fst (acceptCoin ex_verify ex_hash ''BANK'' 2 (ex_alice\<lparr>signature := 26\<rparr>) ex_world) = Inr ris"
    and pp: "parseCoin ''BANK'' (toString ex_alice) = Inr (lh, rh)"
    and hh: "\<forall>i<2. ex_hash (ris ! i) = (if shd (draws ex_world) then lh else rh) ! i"
    by auto
  from r ex_alice_left have ris: "ris = [''ptvv5u6810V'', ''z3qv0l680WU'']" by simp
  from pp p have lh: "lh = [''927'', ''890'']" by simp
  have sl: "shd (draws ex_world)" by (simp add: ex_world_def)
  from hh have "ex_hash (ris ! 0) = (if shd (draws ex_world) then lh else rh) ! 0"
    and "ex_hash (ris ! 1) = (if shd (draws ex_world) then lh else rh) ! 1"
    by simp_all
  with ris lh sl have "ex_hash ''ptvv5u6810V'' = ''927''" "ex_hash ''z3qv0l680WU'' = ''890''"
    by simp_all
  with ex_alice_construct v r ris p show ?thesis by simp
qed

text \<open>
  The claim as the spec states it fails. The coin that the constructor builds for \<open>alice\<close>
  with the identifier \<open>a-b\<close> is validly signed, but its canonical string splits into six
  fields: the left hashes are read from the second half of the identifier, and acceptance
  fails on the count of the hashes.
\<close>

theorem fresh_coin_with_dash_refused:
  "construct ex_hash ''BANK'' ''IDENT'' ''alice'' 20 ''a-b'' [''9038aOWTXS3'', ''3w48dVWTY40''] =
     Inr (ex_alice\<lparr>guid := ''a-b'', coinString := ''BANK-20-a-b-927,890-781,824''\<rparr>) \<and>
   ex_verify 27 (toString (ex_alice\<lparr>guid := ''a-b'', coinString := ''BANK-20-a-b-927,890-781,824''\<rparr>)) \<and>
   parseCoin ''BANK'' ''BANK-20-a-b-927,890-781,824'' = Inr ([''b''], [''927'', ''890'']) \<and>
   acceptCoin ex_verify ex_hash ''BANK'' 2
     (ex_alice\<lparr>guid := ''a-b'', coinString := ''BANK-20-a-b-927,890-781,824'', signature := 27\<rparr>)
     ex_world = (Inl (InvalidHashCount 2 1 2), ex_world)"
  by (simp add: construct_def identityTag_def xor_bytes_def ex_hash_def ex_alice_def Let_def
      show_nat.simps ex_verify_def toString_def acceptCoin_def parseCoin_def nth_opt_def
      splitHashes_def)

text \<open>
  The hash-mismatch error. When the coin has passed its checks, every share before the
  index \<open>i\<close> passes, and the share of index \<open>i\<close> on the chosen side is present and not empty
  but its hash is not the commitment of that index on that side, then acceptance fails with the
  hash-mismatch error, which carries the index, the commitment that was expected and the hash
  that was found.
\<close>

lemma acceptCoin_hash_mismatch:
  assumes "verify (signature c) (toString c)"
    and "parseCoin BANK_STR (toString c) = Inr (lh, rh)"
    and "length lh = n" and "length rh = n"
    and "leftIdent c \<noteq> None" and "rightIdent c \<noteq> None"
    and "i < n"
    and "\<forall>j<i. sharePasses hash c (shd (draws w)) lh rh j"
    and "getRis c (shd (draws w)) i = Some p" and "p \<noteq> []"
    and "hash p \<noteq> (if shd (draws w) then lh else rh) ! i"
  shows "acceptCoin verify hash BANK_STR n c w =
           (Inl (InvalidRisHash i (Some ((if shd (draws w) then lh else rh) ! i)) (hash p)),
            w\<lparr>draws := stl (draws w)\<rparr>)"
proof -
  let ?sl = "shd (draws w)"
  have sel: "(if ?sl then nth_opt lh i else nth_opt rh i) = Some ((if ?sl then lh else rh) ! i)"
    using assms(3,4,7) by (simp add: nth_opt_def)
  have pass: "list_all (sharePasses hash c ?sl lh rh) [0..<i]"
    using assms(8) by (simp add: list_all_iff)
  have "gatherRis hash c ?sl lh rh [0..<n] [] =
        gatherRis hash c ?sl lh rh (i # [Suc i..<n]) ([] @ map (\<lambda>j. the (getRis c ?sl j)) [0..<i])"
    using gatherRis_pass [OF pass, of "i # [Suc i..<n]" "[]"] upt_split [OF assms(7)] by simp
  also have "\<dots> = Inl (InvalidRisHash i (Some ((if ?sl then lh else rh) ! i)) (hash p))"
    using assms(9,10,11) sel by (simp add: Let_def)
  finally have g: "gatherRis hash c ?sl lh rh [0..<n] [] =
      Inl (InvalidRisHash i (Some ((if ?sl then lh else rh) ! i)) (hash p))" .
  show ?thesis
    using assms(1-6) g by (simp add: acceptCoin_def Let_def)
qed

lemma ex_coin_bad_mismatch:
  "ex_verify (signature ex_coin_bad) (toString ex_coin_bad) \<and>
   parseCoin ''BANK'' (toString ex_coin_bad) = Inr ([''195'', ''1''], [''203'', ''1'']) \<and>
   sharePasses ex_hash ex_coin_bad (shd (draws ex_world)) [''195'', ''1''] [''203'', ''1''] 0 \<and>
   getRis ex_coin_bad (shd (draws ex_world)) 1 = Some ''zz'' \<and> ex_hash ''zz'' = ''244'' \<and>
   acceptCoin ex_verify ex_hash ''BANK'' 2 ex_coin_bad ex_world =
     (Inl (InvalidRisHash 1 (Some ''1'') ''244''), ex_world\<lparr>draws := stl (draws ex_world)\<rparr>)"
proof -
  have sl: "shd (draws ex_world)" by (simp add: ex_world_def)
  have v: "ex_verify (signature ex_coin_bad) (toString ex_coin_bad)"
    by (simp add: ex_verify_def ex_coin_bad_def toString_def)
  have p0: "sharePasses ex_hash ex_coin_bad (shd (draws ex_world)) [''195'', ''1''] [''203'', ''1''] 0"
    by (simp add: sharePasses_def getRis_def ex_coin_bad_def nth_opt_def ex_hash_def
        show_nat.simps sl)
  then have pass:
    "\<forall>j<1. sharePasses ex_hash ex_coin_bad (shd (draws ex_world)) [''195'', ''1''] [''203'', ''1''] j"
    by simp
  have g: "getRis ex_coin_bad (shd (draws ex_world)) 1 = Some ''zz''"
    by (simp add: getRis_def ex_coin_bad_def nth_opt_def sl)
  have hz: "ex_hash ''zz'' = ''244''"
    by (simp add: ex_hash_def show_nat.simps)
  then have h: "ex_hash ''zz'' \<noteq> (if shd (draws ex_world) then [''195'', ''1''] else [''203'', ''1'']) ! 1"
    by (simp add: sl)
  from v pass g h ex_coin_bad_parse
    acceptCoin_hash_mismatch [where verify = ex_verify and c = ex_coin_bad and
      BANK_STR = "''BANK''" and lh = "[''195'', ''1'']" and rh = "[''203'', ''1'']" and n = 2 and
      i = 1 and hash = ex_hash and w = ex_world and p = "''zz''"]
  have "acceptCoin ex_verify ex_hash ''BANK'' 2 ex_coin_bad ex_world =
     (Inl (InvalidRisHash 1 (Some ((if shd (draws ex_world) then [''195'', ''1''] else [''203'', ''1'']) ! 1))
        (ex_hash ''zz'')), ex_world\<lparr>draws := stl (draws ex_world)\<rparr>)"
    by (simp add: ex_coin_bad_def)
  then have "acceptCoin ex_verify ex_hash ''BANK'' 2 ex_coin_bad ex_world =
     (Inl (InvalidRisHash 1 (Some ''1'') ''244''), ex_world\<lparr>draws := stl (draws ex_world)\<rparr>)"
    by (simp add: hz sl)
  with v ex_coin_bad_parse p0 g hz show ?thesis by simp
qed

text \<open>
  Claim C7, at an input where the code and the claim part. The second share of the coin
  \<open>ex_coin_bad\<close> does not hash to its commitment, on either side. Acceptance fails with the
  hash-mismatch error of index 1, and the error raised when the left side is challenged is the
  error raised when the right side is challenged: the message names the index, but not the
  side, which the message for a missing preimage, raised in the same loop, does name.
\<close>

theorem acceptCoin_hash_mismatch_names_no_side:
  "shd (draws ex_world) \<and> \<not> shd (draws (ex_world\<lparr>draws := stl (draws ex_world)\<rparr>)) \<and>
   fst (acceptCoin ex_verify ex_hash ''BANK'' 2 ex_coin_bad ex_world) =
     Inl (InvalidRisHash 1 (Some ''1'') ''244'') \<and>
   fst (acceptCoin ex_verify ex_hash ''BANK'' 2 ex_coin_bad
          (ex_world\<lparr>draws := stl (draws ex_world)\<rparr>)) =
     Inl (InvalidRisHash 1 (Some ''1'') ''244'')"
  by (simp add: acceptCoin_def ex_verify_def ex_hash_def ex_world_def ex_coin_bad_def toString_def
      parseCoin_def nth_opt_def splitHashes_def getRis_def console_log_def upt_conv_Cons
      show_nat.simps)

text \<open>The two errors at that input, side by side.\<close>

theorem acceptCoin_hash_mismatch_names_no_side_witness:
  "fst (acceptCoin ex_verify ex_hash ''BANK'' 2 ex_coin_bad ex_world) =
     fst (acceptCoin ex_verify ex_hash ''BANK'' 2 ex_coin_bad
            (ex_world\<lparr>draws := stl (draws ex_world)\<rparr>)) \<and>
   shd (draws ex_world) \<noteq> shd (draws (ex_world\<lparr>draws := stl (draws ex_world)\<rparr>))"
  using acceptCoin_hash_mismatch_names_no_side
  by simp

section \<open>Adjudication\<close>

text \<open>
  On ASCII strings the conversions of the runtime are the identity, and the examples below
  instantiate them so.
\<close>

text \<open>
  Claim C1, as the code has it. When the two sequences are not reported as merchant cheating
  (their joins differ), every index before \<open>i\<close> gives a result that does not start with
  \<open>IDENT_STR\<close>, and the result \<open>x\<close> of index \<open>i\<close> does, then the adjudicator reports spender
  cheating and stops: one line is written, and the identity in it is \<open>x\<close> without its first
  \<open>length IDENT_STR + 1\<close> characters, the marker and the one character after it, which is not
  looked at.
\<close>

theorem spender_identified_at_first_hit:
  assumes "join_js '','' (map toStr ris1) \<noteq> join_js '','' (map toStr ris2)"
    and "i < n"
    and "\<forall>j<i. \<exists>a b x. nth_opt ris1 j = Some a \<and> nth_opt ris2 j = Some b \<and>
           otp (bufferFrom a) (bufferFrom b) = Inr x \<and> \<not> startsWith x IDENT_STR"
    and "nth_opt ris1 i = Some a" and "nth_opt ris2 i = Some b"
    and "otp (bufferFrom a) (bufferFrom b) = Inr x" and "startsWith x IDENT_STR"
  shows "determineCheater n IDENT_STR toStr bufferFrom otp g ris1 ris2 w =
           (None, console_log (SpenderCheating g (drop (length IDENT_STR + 1) x)) w)"
  using determineCheater_first_hit [OF assms] by (simp add: substring_def)

theorem spender_identified_at_first_hit_witness:
  "join_js '','' (map (\<lambda>s. s) [''ptvv5u6810V'', ''z3qv0l680WU'']) \<noteq>
     join_js '','' (map (\<lambda>s. s) [''ptvv5u6810V'', ''3w48dVWTY40'']) \<and>
   decryptOTP (\<lambda>b. b) ''ptvv5u6810V'' ''ptvv5u6810V'' =
     Inr [CHR 0x00, CHR 0x00, CHR 0x00, CHR 0x00, CHR 0x00, CHR 0x00, CHR 0x00, CHR 0x00,
          CHR 0x00, CHR 0x00, CHR 0x00] \<and>
   decryptOTP (\<lambda>b. b) ''z3qv0l680WU'' ''3w48dVWTY40'' = Inr ''IDENT:alice'' \<and>
   determineCheater 2 ''IDENT'' (\<lambda>s. s) (\<lambda>s. s) (decryptOTP (\<lambda>b. b)) ''g1''
     [''ptvv5u6810V'', ''z3qv0l680WU''] [''ptvv5u6810V'', ''3w48dVWTY40''] ex_world =
     (None, console_log (SpenderCheating ''g1'' ''alice'') ex_world)"
proof -
  have j: "join_js '','' (map (\<lambda>s. s) [''ptvv5u6810V'', ''z3qv0l680WU'']) \<noteq>
           join_js '','' (map (\<lambda>s. s) [''ptvv5u6810V'', ''3w48dVWTY40''])" by simp
  have d0: "decryptOTP (\<lambda>b. b) ''ptvv5u6810V'' ''ptvv5u6810V'' =
     Inr [CHR 0x00, CHR 0x00, CHR 0x00, CHR 0x00, CHR 0x00, CHR 0x00, CHR 0x00, CHR 0x00,
          CHR 0x00, CHR 0x00, CHR 0x00]"
    by (simp add: decryptOTP_def xor_bytes_def)
  have d1: "decryptOTP (\<lambda>b. b) ''z3qv0l680WU'' ''3w48dVWTY40'' = Inr ''IDENT:alice''"
    by (simp add: decryptOTP_def xor_bytes_def)
  have skip: "\<forall>j<1. \<exists>a b x. nth_opt [''ptvv5u6810V'', ''z3qv0l680WU''] j = Some a \<and>
      nth_opt [''ptvv5u6810V'', ''3w48dVWTY40''] j = Some b \<and>
      decryptOTP (\<lambda>b. b) a b = Inr x \<and> \<not> startsWith x ''IDENT''"
    using d0 by (simp add: nth_opt_def startsWith_def)
  have "determineCheater 2 ''IDENT'' (\<lambda>s. s) (\<lambda>s. s) (decryptOTP (\<lambda>b. b)) ''g1''
     [''ptvv5u6810V'', ''z3qv0l680WU''] [''ptvv5u6810V'', ''3w48dVWTY40''] ex_world =
     (None, console_log (SpenderCheating ''g1'' (drop (length ''IDENT'' + 1) ''IDENT:alice'')) ex_world)"
    by (rule spender_identified_at_first_hit [where i = 1 and a = "''z3qv0l680WU''" and
          b = "''3w48dVWTY40''", OF j _ skip _ _ d1])
      (simp_all add: nth_opt_def startsWith_def)
  with j d0 d1 show ?thesis by simp
qed

text \<open>
  The claim as the spec states it fails. At index 0 the result \<open>IDENTXalice\<close> starts with the
  marker \<open>IDENT\<close> and the adjudicator reports \<open>alice\<close>, which is not the remainder \<open>Xalice\<close> of
  the result after the marker; and when the prefix is read as the marker with its delimiter,
  \<open>IDENT:\<close>, the first index with that prefix is 1, with the remainder \<open>carol\<close>, but the
  adjudicator has stopped at index 0.
\<close>

theorem spender_identity_not_remainder:
  "decryptOTP (\<lambda>b. b)
     [CHR 0x00, CHR 0x00, CHR 0x00, CHR 0x00, CHR 0x00, CHR 0x00, CHR 0x00, CHR 0x00,
      CHR 0x00, CHR 0x00, CHR 0x00] ''IDENTXalice'' = Inr ''IDENTXalice'' \<and>
   startsWith ''IDENTXalice'' ''IDENT'' \<and> \<not> startsWith ''IDENTXalice'' ''IDENT:'' \<and>
   drop (length ''IDENT'') ''IDENTXalice'' = ''Xalice'' \<and>
   decryptOTP (\<lambda>b. b)
     [CHR 0x00, CHR 0x00, CHR 0x00, CHR 0x00, CHR 0x00, CHR 0x00, CHR 0x00, CHR 0x00,
      CHR 0x00, CHR 0x00, CHR 0x00] ''IDENT:carol'' = Inr ''IDENT:carol'' \<and>
   startsWith ''IDENT:carol'' ''IDENT:'' \<and>
   determineCheater 2 ''IDENT'' (\<lambda>s. s) (\<lambda>s. s) (decryptOTP (\<lambda>b. b)) ''g1''
     [[CHR 0x00, CHR 0x00, CHR 0x00, CHR 0x00, CHR 0x00, CHR 0x00, CHR 0x00, CHR 0x00,
       CHR 0x00, CHR 0x00, CHR 0x00],
      [CHR 0x00, CHR 0x00, CHR 0x00, CHR 0x00, CHR 0x00, CHR 0x00, CHR 0x00, CHR 0x00,
       CHR 0x00, CHR 0x00, CHR 0x00]]
     [''IDENTXalice'', ''IDENT:carol''] ex_world =
     (None, console_log (SpenderCheating ''g1'' ''alice'') ex_world)"
  by (simp add: determineCheater_def decryptOTP_def xor_bytes_def startsWith_def substring_def
      nth_opt_def upt_conv_Cons)

text \<open>
  Claim C2, at an input where the code and the claim part. The coin \<open>ex_coin_comma\<close> is validly
  signed and its shares hash to its commitments. A first acceptance draws the left side and
  returns \<open>[''a,b'', ''c'']\<close>, a second draws the right side and returns \<open>[''a'', ''b,c'']\<close>.
  The two sequences are not equal element by element, but their joins are the same string
  \<open>a,b,c\<close>, and the adjudicator reports merchant cheating.
\<close>

theorem merchant_reported_on_equal_joins:
  "acceptCoin ex_verify ex_hash ''BANK'' 2 ex_coin_comma ex_world =
     (Inr [''a,b'', ''c''],
      \<lparr>draws = False ## sconst True, console = [CoinAccepted ''g1'' 20 True 2]\<rparr>) \<and>
   acceptCoin ex_verify ex_hash ''BANK'' 2 ex_coin_comma
     \<lparr>draws = False ## sconst True, console = [CoinAccepted ''g1'' 20 True 2]\<rparr> =
     (Inr [''a'', ''b,c''],
      \<lparr>draws = sconst True,
        console = [CoinAccepted ''g1'' 20 True 2, CoinAccepted ''g1'' 20 False 2]\<rparr>) \<and>
   [''a,b'', ''c''] \<noteq> [''a'', ''b,c''] \<and>
   join_js '','' (map (\<lambda>s. s) [''a,b'', ''c'']) = ''a,b,c'' \<and>
   join_js '','' (map (\<lambda>s. s) [''a'', ''b,c'']) = ''a,b,c'' \<and>
   determineCheater 2 ''IDENT'' (\<lambda>s. s) (\<lambda>s. s) (decryptOTP (\<lambda>b. b)) ''g1''
     [''a,b'', ''c''] [''a'', ''b,c''] ex_world =
     (None, console_log (MerchantCheating ''g1'') ex_world)"
  by (simp add: determineCheater_def acceptCoin_def ex_verify_def ex_hash_def ex_world_def
      ex_coin_comma_def toString_def parseCoin_def nth_opt_def splitHashes_def getRis_def
      console_log_def upt_conv_Cons show_nat.simps)

text \<open>
  What the adjudicator is given at that input, and what it reports.
\<close>

theorem merchant_reported_on_equal_joins_witness:
  "fst (acceptCoin ex_verify ex_hash ''BANK'' 2 ex_coin_comma ex_world) = Inr [''a,b'', ''c''] \<and>
   fst (acceptCoin ex_verify ex_hash ''BANK'' 2 ex_coin_comma
          \<lparr>draws = False ## sconst True, console = [CoinAccepted ''g1'' 20 True 2]\<rparr>) =
     Inr [''a'', ''b,c''] \<and>
   [''a,b'', ''c''] \<noteq> [''a'', ''b,c''] \<and>
   fst (determineCheater 2 ''IDENT'' (\<lambda>s. s) (\<lambda>s. s) (decryptOTP (\<lambda>b. b)) ''g1''
          [''a,b'', ''c''] [''a'', ''b,c''] ex_world) = None \<and>
   console (snd (determineCheater 2 ''IDENT'' (\<lambda>s. s) (\<lambda>s. s) (decryptOTP (\<lambda>b. b)) ''g1''
          [''a,b'', ''c''] [''a'', ''b,c''] ex_world)) = [MerchantCheating ''g1'']"
  using merchant_reported_on_equal_joins
  by (simp add: console_log_def ex_world_def)

text \<open>
  Claim C3, as the code has it. For a coin from the constructor whose marker, owner identity
  and keys are ASCII strings, and the results of two successful runs of acceptance on it, the
  adjudicator reports merchant cheating when the two runs drew the same side (the two results
  are then the same sequence; so also when there is no split index), and spender cheating with
  exactly the owner's identity when they drew opposite sides. It reports no other identity,
  and never that no cheater was identified. The conversions of the runtime are any functions
  that change no ASCII string.
\<close>

theorem double_spend_outcome:
  assumes con: "construct hash BANK_STR IDENT_STR owner amt g keys = Inr c"
    and keys: "\<forall>key\<in>set keys. length (identityTag IDENT_STR owner) \<le> length key \<and> ascii key"
    and id: "ascii IDENT_STR" "ascii owner"
    and ts: "\<forall>s. ascii s \<longrightarrow> toStr s = s" and bf: "\<forall>s. ascii s \<longrightarrow> bufferFrom s = s"
    and dec: "\<forall>b. ascii b \<longrightarrow> bufToString b = b"
    and r1: "acceptCoin verify hash BANK_STR n (c\<lparr>signature := sg\<rparr>) w1 = (Inr ris1, w1')"
    and r2: "acceptCoin verify hash BANK_STR n (c\<lparr>signature := sg\<rparr>) w2 = (Inr ris2, w2')"
  shows "determineCheater n IDENT_STR toStr bufferFrom (decryptOTP bufToString) (guid c) ris1 ris2 w =
           (None, console_log
              (if shd (draws w1) = shd (draws w2) \<or> n = 0 then MerchantCheating (guid c)
               else SpenderCheating (guid c) owner) w)"
proof -
  let ?tag = "identityTag IDENT_STR owner"
  let ?L = "map (\<lambda>key. xor_bytes ?tag key) keys"
  let ?R = "map (\<lambda>key. xor_bytes (xor_bytes ?tag key) ?tag) keys"
  let ?side = "\<lambda>w. if shd (draws w) then ?L else ?R"
  have li: "leftIdent (c\<lparr>signature := sg\<rparr>) = Some ?L"
    and ri: "rightIdent (c\<lparr>signature := sg\<rparr>) = Some ?R"
    using construct_fields(4,5) [OF con] by simp_all
  from acceptCoin_Inr_shape [OF r1] li ri
  have s1: "ris1 = take n (?side w1)" and n1: "n \<le> length keys"
    by (auto split: if_splits)
  from acceptCoin_Inr_shape [OF r2] li ri
  have s2: "ris2 = take n (?side w2)"
    by (auto split: if_splits)
  have atag: "ascii ?tag" using id by (rule ascii_identityTag)
  show ?thesis
  proof (cases "shd (draws w1) = shd (draws w2) \<or> n = 0")
    case True
    with s1 s2 have "ris1 = ris2" by auto
    with True show ?thesis by (simp add: determineCheater_same)
  next
    case False
    then have n0: "0 < n" and d: "shd (draws w1) \<noteq> shd (draws w2)" by simp_all
    note opp = opposite_sides
      [where toStr = toStr and bufferFrom = bufferFrom and dec = bufToString and g = "guid c"
        and w = w, OF keys refl atag ts bf dec n0 n1 refl refl]
    from d s1 s2 opp False show ?thesis
      by (cases "shd (draws w1)") simp_all
  qed
qed

theorem double_spend_outcome_witness:
  "construct ex_hash ''BANK'' ''IDENT'' ''alice'' 20 ''g1'' [''9038aOWTXS3'', ''3w48dVWTY40''] =
     Inr ex_alice \<and>
   ascii ''IDENT'' \<and> ascii ''alice'' \<and> ascii ''9038aOWTXS3'' \<and> ascii ''3w48dVWTY40'' \<and>
   acceptCoin ex_verify ex_hash ''BANK'' 2 (ex_alice\<lparr>signature := 26\<rparr>) ex_world =
     (Inr [''ptvv5u6810V'', ''z3qv0l680WU''],
      \<lparr>draws = False ## sconst True, console = [CoinAccepted ''g1'' 20 True 2]\<rparr>) \<and>
   acceptCoin ex_verify ex_hash ''BANK'' 2 (ex_alice\<lparr>signature := 26\<rparr>)
     \<lparr>draws = False ## sconst True, console = [CoinAccepted ''g1'' 20 True 2]\<rparr> =
     (Inr [''9038aOWTXS3'', ''3w48dVWTY40''],
      \<lparr>draws = sconst True,
        console = [CoinAccepted ''g1'' 20 True 2, CoinAccepted ''g1'' 20 False 2]\<rparr>) \<and>
   determineCheater 2 ''IDENT'' (\<lambda>s. s) (\<lambda>s. s) (decryptOTP (\<lambda>b. b)) ''g1''
     [''ptvv5u6810V'', ''z3qv0l680WU''] [''9038aOWTXS3'', ''3w48dVWTY40''] ex_world =
     (None, console_log (SpenderCheating ''g1'' ''alice'') ex_world)"
proof -
  have a: "ascii ''IDENT''" "ascii ''alice''" "ascii ''9038aOWTXS3''" "ascii ''3w48dVWTY40''"
    by (simp_all add: ascii_def)
  have k: "\<forall>key\<in>set [''9038aOWTXS3'', ''3w48dVWTY40''].
             length (identityTag ''IDENT'' ''alice'') \<le> length key \<and> ascii key"
    by (simp add: identityTag_def ascii_def)
  from double_spend_outcome
    [where toStr = "\<lambda>s. s" and bufferFrom = "\<lambda>s. s" and bufToString = "\<lambda>b. b" and
      w = ex_world, OF ex_alice_construct k a(1,2) _ _ _ ex_alice_left ex_alice_right]
  have "determineCheater 2 ''IDENT'' (\<lambda>s. s) (\<lambda>s. s) (decryptOTP (\<lambda>b. b)) ''g1''
     [''ptvv5u6810V'', ''z3qv0l680WU''] [''9038aOWTXS3'', ''3w48dVWTY40''] ex_world =
     (None, console_log (SpenderCheating ''g1'' ''alice'') ex_world)"
    by (simp add: ex_alice_def ex_world_def)
  with ex_alice_construct ex_alice_left ex_alice_right a show ?thesis by simp
qed

text \<open>
  The claim as the spec states it fails. Two runs on the signed coin of \<open>alice\<close> that both draw
  the left side return the same sequence, and the adjudicator reports merchant cheating:
  neither spender cheating nor that no cheater was identified.
\<close>

theorem same_side_reports_merchant:
  "construct ex_hash ''BANK'' ''IDENT'' ''alice'' 20 ''g1'' [''9038aOWTXS3'', ''3w48dVWTY40''] =
     Inr ex_alice \<and>
   acceptCoin ex_verify ex_hash ''BANK'' 2 (ex_alice\<lparr>signature := 26\<rparr>)
     \<lparr>draws = sconst True, console = []\<rparr> =
     (Inr [''ptvv5u6810V'', ''z3qv0l680WU''],
      \<lparr>draws = sconst True, console = [CoinAccepted ''g1'' 20 True 2]\<rparr>) \<and>
   acceptCoin ex_verify ex_hash ''BANK'' 2 (ex_alice\<lparr>signature := 26\<rparr>)
     \<lparr>draws = sconst True, console = [CoinAccepted ''g1'' 20 True 2]\<rparr> =
     (Inr [''ptvv5u6810V'', ''z3qv0l680WU''],
      \<lparr>draws = sconst True,
        console = [CoinAccepted ''g1'' 20 True 2, CoinAccepted ''g1'' 20 True 2]\<rparr>) \<and>
   determineCheater 2 ''IDENT'' (\<lambda>s. s) (\<lambda>s. s) (decryptOTP (\<lambda>b. b)) ''g1''
     [''ptvv5u6810V'', ''z3qv0l680WU''] [''ptvv5u6810V'', ''z3qv0l680WU''] ex_world =
     (None, console_log (MerchantCheating ''g1'') ex_world) \<and>
   MerchantCheating ''g1'' \<noteq> SpenderCheating ''g1'' ''alice'' \<and>
   MerchantCheating ''g1'' \<noteq> Inconclusive ''g1''"
  by (simp add: ex_alice_construct determineCheater_def acceptCoin_def ex_verify_def ex_hash_def
      ex_alice_def toString_def parseCoin_def nth_opt_def splitHashes_def getRis_def
      console_log_def upt_conv_Cons show_nat.simps)

text \<open>
  Claim C9. The adjudicator is a function of its arguments: the error it throws, if any, is
  the same in every world; it leaves the random source as it found it; and all it does to the
  world is to write at most one line on the console, the same line in every world. Its
  arguments are values, which it cannot change.
\<close>

theorem determineCheater_pure:
  "fst (determineCheater n IDENT_STR toStr bufferFrom otp g ris1 ris2 w) =
     fst (determineCheater n IDENT_STR toStr bufferFrom otp g ris1 ris2 w') \<and>
   draws (snd (determineCheater n IDENT_STR toStr bufferFrom otp g ris1 ris2 w)) = draws w \<and>
   (\<exists>ls. length ls \<le> 1 \<and>
      (\<forall>v. console (snd (determineCheater n IDENT_STR toStr bufferFrom otp g ris1 ris2 v)) =
           console v @ ls))"
proof -
  from determineCheater_outcome [of n IDENT_STR toStr bufferFrom otp g ris1 ris2]
  obtain e ls where ls: "length ls \<le> 1" and
    eq: "\<And>v. determineCheater n IDENT_STR toStr bufferFrom otp g ris1 ris2 v =
           (e, v\<lparr>console := console v @ ls\<rparr>)"
    by blast
  show ?thesis
    using ls by (auto simp: eq)
qed

end
